theory Spec2Isabelle
  imports Main
begin

section \<open>Promises, collaborators and recorded calls\<close>

text \<open>
  The development embeds \<^verbatim>\<open>src/kernels/kernelExecution.ts\<close>, the class
  \<^verbatim>\<open>NotebookKernelExecution\<close>. The class drives collaborators whose code lives in other
  files (the kernel, \<^verbatim>\<open>CellExecutionQueue\<close>, \<^verbatim>\<open>CodeExecution\<close>): what they answer is
  taken from an \<open>environment\<close>, and every call the class makes on them is recorded, in
  order, as a \<open>call\<close>. Logging, tracing, telemetry and the list of disposables are left
  out: no operation of the class reads them back.

  A promise is represented by the way it eventually settles. \<open>Never\<close> is the promise that
  stays pending: an \<^verbatim>\<open>await\<close> on it does not return.
\<close>

datatype error = Error string

datatype 'a settled = Fulfilled 'a | Rejected error | Never

type_synonym NotebookDocument = nat
type_synonym IKernelSession = nat
type_synonym CellExecutionQueue = nat
type_synonym ResumeCellExecutionInformation = string

datatype NotebookCellKind = Markup | Code

datatype NotebookCellExecutionState = Idle | Pending | Executing

record NotebookCellExecutionSummary =
  executionOrder :: "int option"

record NotebookCell =
  index :: nat
  kind :: NotebookCellKind
  notebook :: NotebookDocument
  executionSummary :: "NotebookCellExecutionSummary option"

record NotebookCellExecutionStateChangeEvent =
  cell :: NotebookCell
  state :: NotebookCellExecutionState

record CancellationToken =
  isCancellationRequested :: bool

text \<open>
  \<^verbatim>\<open>new DisplayOptions(disableUI)\<close> and \<^verbatim>\<open>new StartOptions(disableUI, ...)\<close>, the arguments of
  \<^verbatim>\<open>kernel.start\<close>.
\<close>

datatype options = DisplayOptions bool | StartOptions bool bool

text \<open>
  The object an execution request is tracked by (\<^verbatim>\<open>ICodeExecution\<close>): made by
  \<^verbatim>\<open>CodeExecution.fromCode(code, extensionId)\<close>, or handed back by
  \<^verbatim>\<open>executionQueue.queueCode(code, extensionId, token)\<close>.
\<close>

datatype ICodeExecution =
    FromCode string string
  | Queued CellExecutionQueue string string CancellationToken

text \<open>The calls on collaborators, as the class makes them.\<close>

datatype call =
    KernelStart options
  | CodeExecutionFromCode string string
  | ExecutionStart ICodeExecution IKernelSession
  | QueueCell CellExecutionQueue NotebookCell "string option"
  | ResumeCell CellExecutionQueue NotebookCell ResumeCellExecutionInformation
  | QueueCode CellExecutionQueue string string CancellationToken
  | Cancel CellExecutionQueue "bool option"
  | WaitForCompletion CellExecutionQueue "NotebookCell option"

text \<open>
  \<^verbatim>\<open>cancel(forced?: boolean)\<close> is called with \<^verbatim>\<open>true\<close> or with no argument; an omitted
  argument is \<^verbatim>\<open>undefined\<close>, which is falsy.
\<close>

fun forceful :: "bool option \<Rightarrow> bool" where
  "forceful None = False"
| "forceful (Some b) = b"

text \<open>
  What the collaborators answer while one operation of the class runs. The two extension
  identifiers are constants of \<^verbatim>\<open>platform/common/constants\<close>, a file outside this one; they
  are parameters here.
\<close>

record environment =
  JVSC_EXTENSION_ID :: string
  POWER_TOYS_EXTENSION_ID :: string
  connectionKind :: string
  restarting :: "unit settled"
  start :: "options \<Rightarrow> IKernelSession settled"
  isPostInitializedInProgress :: bool
  kernelSession :: "IKernelSession option"
  isEmpty :: "CellExecutionQueue \<Rightarrow> bool"
  failed :: "CellExecutionQueue \<Rightarrow> bool"
  cancel :: "CellExecutionQueue \<Rightarrow> bool option \<Rightarrow> unit settled"
  waitForCompletion :: "CellExecutionQueue \<Rightarrow> NotebookCell option \<Rightarrow> unit settled"

section \<open>Asynchronous calls\<close>

text \<open>
  A task is an asynchronous computation seen from its caller: the calls it makes, in
  order, and the way its promise settles.
\<close>

type_synonym 'a task = "call list \<times> 'a settled"

definition resolved :: "'a \<Rightarrow> 'a task" where
  "resolved v = ([], Fulfilled v)"

text \<open>
  \<^verbatim>\<open>p.then(k)\<close>, and \<^verbatim>\<open>await p\<close> followed by \<open>k\<close>: the continuation runs only once \<open>p\<close> is
  fulfilled; a rejection passes through, a pending promise blocks.
\<close>

definition andThen :: "'a task \<Rightarrow> ('a \<Rightarrow> 'b task) \<Rightarrow> 'b task" where
  "andThen p k =
     (case snd p of
        Fulfilled v \<Rightarrow> (fst p @ fst (k v), snd (k v))
      | Rejected e \<Rightarrow> (fst p, Rejected e)
      | Never \<Rightarrow> (fst p, Never))"

text \<open>The calls made by the continuation of \<^verbatim>\<open>p.then(k)\<close> alone.\<close>

definition continuation :: "'a task \<Rightarrow> ('a \<Rightarrow> 'b task) \<Rightarrow> call list" where
  "continuation p k = (case snd p of Fulfilled v \<Rightarrow> fst (k v) | _ \<Rightarrow> [])"

text \<open>\<^verbatim>\<open>p.catch(() => v)\<close>; \<^verbatim>\<open>p.catch(noop)\<close> is \<open>catch p ()\<close> for a \<^verbatim>\<open>Promise<void>\<close>.\<close>

definition catch :: "'a task \<Rightarrow> 'a \<Rightarrow> 'a task" where
  "catch p v = (fst p, (case snd p of Rejected e \<Rightarrow> Fulfilled v | r \<Rightarrow> r))"

definition queue_cancel :: "environment \<Rightarrow> CellExecutionQueue \<Rightarrow> bool option \<Rightarrow> unit task" where
  "queue_cancel env q forced = ([Cancel q forced], cancel env q forced)"

definition queue_waitForCompletion ::
  "environment \<Rightarrow> CellExecutionQueue \<Rightarrow> NotebookCell option \<Rightarrow> unit task" where
  "queue_waitForCompletion env q c = ([WaitForCompletion q c], waitForCompletion env q c)"

definition kernel_start :: "environment \<Rightarrow> options \<Rightarrow> IKernelSession task" where
  "kernel_start env opts = ([KernelStart opts], start env opts)"

text \<open>\<^verbatim>\<open>this.kernel.restarting.then(() => this.kernel.start(opts))\<close>\<close>

definition restarting_then_start :: "environment \<Rightarrow> options \<Rightarrow> IKernelSession task" where
  "restarting_then_start env opts = andThen ([], restarting env) (\<lambda>_. kernel_start env opts)"

section \<open>The state of the class\<close>

text \<open>
  \<open>thisNotebook\<close> is the constructor's \<^verbatim>\<open>notebook\<close>, \<open>kernelNotebook\<close> is \<^verbatim>\<open>kernel.notebook\<close>.
  \<open>queues\<close> lists the queues constructed so far, each with the session promise it was
  constructed with; a queue is referred to by its position. \<open>closeListeners\<close> are the
  handlers registered with \<^verbatim>\<open>workspace.onDidCloseNotebookDocument\<close>, each with the
  \<^verbatim>\<open>document\<close> and the \<^verbatim>\<open>newCellExecutionQueue\<close> it closes over.
\<close>

record NotebookKernelExecution =
  thisNotebook :: NotebookDocument
  kernelNotebook :: NotebookDocument
  visibleExecutionCount :: int
  documentExecutions :: "NotebookDocument \<rightharpoonup> CellExecutionQueue"
  queues :: "IKernelSession settled list"
  closeListeners :: "(NotebookDocument \<times> CellExecutionQueue) list"

definition executionCount :: "NotebookKernelExecution \<Rightarrow> int" where
  "executionCount this = visibleExecutionCount this"

text \<open>The object as the constructor leaves it.\<close>

definition constructed :: "NotebookDocument \<Rightarrow> NotebookDocument \<Rightarrow> NotebookKernelExecution" where
  "constructed kernel_nb nb =
     \<lparr>thisNotebook = nb, kernelNotebook = kernel_nb, visibleExecutionCount = 0,
      documentExecutions = Map.empty, queues = [], closeListeners = []\<rparr>"

subsection \<open>getOrCreateCellExecutionQueue\<close>

definition newCellExecutionQueue ::
  "NotebookKernelExecution \<Rightarrow> NotebookDocument \<Rightarrow> IKernelSession settled \<Rightarrow>
   CellExecutionQueue \<times> NotebookKernelExecution" where
  "newCellExecutionQueue this document sessionPromise =
     (let q = length (queues this)
      in (q, this\<lparr>queues := queues this @ [sessionPromise],
                  closeListeners := closeListeners this @ [(document, q)],
                  documentExecutions := (documentExecutions this)(document \<mapsto> q)\<rparr>))"

definition getOrCreateCellExecutionQueue ::
  "environment \<Rightarrow> NotebookKernelExecution \<Rightarrow> NotebookDocument \<Rightarrow> IKernelSession settled \<Rightarrow>
   CellExecutionQueue \<times> NotebookKernelExecution" where
  "getOrCreateCellExecutionQueue env this document sessionPromise =
     (case documentExecutions this document of
        Some existingExecutionQueue \<Rightarrow>
          if \<not> isEmpty env existingExecutionQueue \<and> \<not> failed env existingExecutionQueue
          then (existingExecutionQueue, this)
          else newCellExecutionQueue this document sessionPromise
      | None \<Rightarrow> newCellExecutionQueue this document sessionPromise)"

subsection \<open>The handler of onDidCloseNotebookDocument\<close>

definition closeListener ::
  "environment \<Rightarrow> NotebookDocument \<times> CellExecutionQueue \<Rightarrow> NotebookDocument \<Rightarrow> unit task" where
  "closeListener env l e =
     (if e = fst l
      then (if \<not> failed env (snd l) \<or> \<not> isEmpty env (snd l)
            then queue_cancel env (snd l) (Some True)
            else resolved ())
      else resolved ())"

text \<open>A close event runs every registered handler, in the order of registration.\<close>

definition onDidCloseNotebookDocument ::
  "environment \<Rightarrow> NotebookKernelExecution \<Rightarrow> NotebookDocument \<Rightarrow> call list" where
  "onDidCloseNotebookDocument env this e =
     concat (map (\<lambda>l. fst (closeListener env l e)) (closeListeners this))"


section \<open>The operations of the class\<close>

text \<open>
  What an \<^verbatim>\<open>async\<close> method leaves behind: the object, the calls made until the promise
  it returned settled (\<open>made\<close>), how that promise settled (\<open>returned\<close>), and the calls made
  after that by continuations the method did not await (\<open>later\<close>).
\<close>

record completion =
  after :: NotebookKernelExecution
  made :: "call list"
  returned :: "unit settled"
  later :: "call list"

definition finished :: "NotebookKernelExecution \<Rightarrow> unit task \<Rightarrow> completion" where
  "finished this t = \<lparr>after = this, made = fst t, returned = snd t, later = []\<rparr>"

subsection \<open>The hooks willInterrupt, willCancel and willRestart\<close>

definition onWillInterrupt :: "environment \<Rightarrow> NotebookKernelExecution \<Rightarrow> completion" where
  "onWillInterrupt env this =
     (let executionQueue = documentExecutions this (thisNotebook this)
      in if executionQueue = None \<and> connectionKind env \<noteq> ''connectToLiveRemoteKernel''
         then finished this (resolved ())
         else (case executionQueue of
                 Some q \<Rightarrow>
                   finished this
                     (andThen (queue_cancel env q None)
                        (\<lambda>_. catch (queue_waitForCompletion env q None) ()))
               | None \<Rightarrow> finished this (resolved ())))"

definition onWillCancel :: "environment \<Rightarrow> NotebookKernelExecution \<Rightarrow> completion" where
  "onWillCancel env this =
     (case documentExecutions this (thisNotebook this) of
        Some q \<Rightarrow> finished this (queue_cancel env q (Some True))
      | None \<Rightarrow> finished this (resolved ()))"

text \<open>
  \<^verbatim>\<open>sessionPromise ? await sessionPromise.catch(() => undefined) : undefined\<close>: the session,
  or nothing.
\<close>

definition awaitedSession :: "IKernelSession settled option \<Rightarrow> IKernelSession option settled" where
  "awaitedSession sessionPromise =
     (case sessionPromise of
        Some p \<Rightarrow> snd (catch ([], map_settled Some p) None)
      | None \<Rightarrow> Fulfilled None)"

text \<open>
  \<open>pendingCells\<close> is built whether or not a session came back, and awaited only when none
  did. \<^verbatim>\<open>executionQueue.cancel(true)\<close> is called while the promise is built; the \<^verbatim>\<open>then\<close>
  callback, with \<^verbatim>\<open>waitForCompletion\<close>, runs once the cancellation is fulfilled, which is
  after the method has returned when \<open>pendingCells\<close> is not awaited.
\<close>

definition onWillRestart ::
  "environment \<Rightarrow> NotebookKernelExecution \<Rightarrow> IKernelSession settled option \<Rightarrow> completion" where
  "onWillRestart env this sessionPromise =
     (let executionQueue = documentExecutions this (thisNotebook this)
      in case awaitedSession sessionPromise of
           Fulfilled session \<Rightarrow>
             (case executionQueue of
                Some q \<Rightarrow>
                  (let cancelling = queue_cancel env q (Some True);
                       draining = (\<lambda>_. catch (queue_waitForCompletion env q None) ())
                   in if session = None
                      then finished this (andThen cancelling draining)
                      else \<lparr>after = this, made = fst cancelling, returned = Fulfilled (),
                            later = continuation cancelling draining\<rparr>)
              | None \<Rightarrow> finished this (resolved ()))
         | Rejected e \<Rightarrow> finished this ([], Rejected e)
         | Never \<Rightarrow> finished this ([], Never))"

subsection \<open>resumeCellExecution and executeCell\<close>

definition resumeCellExecution ::
  "environment \<Rightarrow> NotebookKernelExecution \<Rightarrow> NotebookCell \<Rightarrow> ResumeCellExecutionInformation \<Rightarrow>
   completion" where
  "resumeCellExecution env this c info =
     (if kind c = Markup then finished this (resolved ())
      else
        (let sessionPromise = kernel_start env (DisplayOptions False);
             (executionQueue, this') =
               getOrCreateCellExecutionQueue env this (notebook c) (snd sessionPromise);
             success =
               catch (andThen (queue_waitForCompletion env executionQueue (Some c))
                        (\<lambda>_. resolved True)) False
         in \<lparr>after = this',
             made = fst sessionPromise @ [ResumeCell executionQueue c info] @ fst success,
             returned = (case snd success of Never \<Rightarrow> Never | _ \<Rightarrow> Fulfilled ()),
             later = []\<rparr>))"

text \<open>
  \<^verbatim>\<open>try { await executionQueue.waitForCompletion(cell) } catch (ex) { success = false; throw ex }\<close>:
  the \<^verbatim>\<open>finally\<close> block only logs and sends telemetry.
\<close>

definition executeCell ::
  "environment \<Rightarrow> NotebookKernelExecution \<Rightarrow> NotebookCell \<Rightarrow> string option \<Rightarrow> completion" where
  "executeCell env this c codeOverride =
     (if kind c = Markup then finished this (resolved ())
      else
        (let sessionPromise = restarting_then_start env (DisplayOptions False)
         in case snd sessionPromise of
              Fulfilled _ \<Rightarrow>
                (let (executionQueue, this') =
                       getOrCreateCellExecutionQueue env this (notebook c) (snd sessionPromise);
                     waiting = queue_waitForCompletion env executionQueue (Some c)
                 in \<lparr>after = this',
                     made = fst sessionPromise @ [QueueCell executionQueue c codeOverride]
                            @ fst waiting,
                     returned = (case snd waiting of
                                   Rejected ex \<Rightarrow> Rejected ex
                                 | Fulfilled _ \<Rightarrow> Fulfilled ()
                                 | Never \<Rightarrow> Never),
                     later = []\<rparr>)
            | Rejected e \<Rightarrow> finished this (fst sessionPromise, Rejected e)
            | Never \<Rightarrow> finished this (fst sessionPromise, Never)))"

subsection \<open>executeCode: obtaining the execution\<close>

text \<open>
  The first part of the generator's body, up to \<^verbatim>\<open>let completed = false\<close>. It has no
  \<^verbatim>\<open>await\<close>: \<open>immediate\<close> are the calls made as it runs, \<open>deferred\<close> the calls made
  afterwards by the \<^verbatim>\<open>then\<close> callbacks it set up.
\<close>

record submission =
  result :: ICodeExecution
  afterwards :: NotebookKernelExecution
  immediate :: "call list"
  deferred :: "call list"

definition executeCode_submit ::
  "environment \<Rightarrow> NotebookKernelExecution \<Rightarrow> string \<Rightarrow> string \<Rightarrow> CancellationToken \<Rightarrow>
   submission" where
  "executeCode_submit env this code extensionId token =
     (if extensionId = JVSC_EXTENSION_ID env \<or> extensionId = POWER_TOYS_EXTENSION_ID env
      then
        (let sessionPromise = restarting_then_start env (DisplayOptions True);
             r = FromCode code extensionId
         in \<lparr>result = r, afterwards = this,
             immediate = [CodeExecutionFromCode code extensionId],
             deferred = fst (andThen sessionPromise
                               (\<lambda>session. ([ExecutionStart r session], Fulfilled ())))\<rparr>)
      else
        (let sessionPromise =
               restarting_then_start env (StartOptions False (isPostInitializedInProgress env));
             (executionQueue, this') =
               getOrCreateCellExecutionQueue env this (thisNotebook this) (snd sessionPromise)
         in \<lparr>result = Queued executionQueue code extensionId token, afterwards = this',
             immediate = [QueueCode executionQueue code extensionId token],
             deferred = fst sessionPromise\<rparr>))"

subsection \<open>The visible execution count\<close>

definition executionOrderOf :: "NotebookCell \<Rightarrow> int option" where
  "executionOrderOf c =
     (case executionSummary c of None \<Rightarrow> None | Some s \<Rightarrow> executionOrder s)"

text \<open>
  The listener of \<^verbatim>\<open>onDidChangeNotebookCellExecutionState\<close>. A missing execution order and
  the order \<open>0\<close> are both falsy.
\<close>

definition onDidChangeNotebookCellExecutionState ::
  "NotebookKernelExecution \<Rightarrow> NotebookCellExecutionStateChangeEvent \<Rightarrow> NotebookKernelExecution" where
  "onDidChangeNotebookCellExecutionState this e =
     (case executionOrderOf (cell e) of
        Some order \<Rightarrow>
          if notebook (cell e) = kernelNotebook this \<and> state e = Idle \<and> order \<noteq> 0
          then this\<lparr>visibleExecutionCount := max (visibleExecutionCount this) order\<rparr>
          else this
      | None \<Rightarrow> this)"

definition onRestarted :: "NotebookKernelExecution \<Rightarrow> NotebookKernelExecution" where
  "onRestarted this = this\<lparr>visibleExecutionCount := 0\<rparr>"

definition onStarted :: "NotebookKernelExecution \<Rightarrow> NotebookKernelExecution" where
  "onStarted this = this\<lparr>visibleExecutionCount := 0\<rparr>"

subsection \<open>Everything that can happen to the object\<close>

datatype operation =
    KernelStarted
  | KernelRestarted
  | CellExecutionStateChanged NotebookCellExecutionStateChangeEvent
  | WillInterrupt
  | WillCancel
  | WillRestart "IKernelSession settled option"
  | NotebookClosed NotebookDocument
  | ResumeCellExecution NotebookCell ResumeCellExecutionInformation
  | ExecuteCell NotebookCell "string option"
  | ExecuteCode string string CancellationToken

fun perform :: "environment \<Rightarrow> operation \<Rightarrow> NotebookKernelExecution \<Rightarrow> NotebookKernelExecution" where
  "perform env KernelStarted this = onStarted this"
| "perform env KernelRestarted this = onRestarted this"
| "perform env (CellExecutionStateChanged e) this = onDidChangeNotebookCellExecutionState this e"
| "perform env WillInterrupt this = after (onWillInterrupt env this)"
| "perform env WillCancel this = after (onWillCancel env this)"
| "perform env (WillRestart sessionPromise) this = after (onWillRestart env this sessionPromise)"
| "perform env (NotebookClosed e) this = this"
| "perform env (ResumeCellExecution c info) this = after (resumeCellExecution env this c info)"
| "perform env (ExecuteCell c codeOverride) this = after (executeCell env this c codeOverride)"
| "perform env (ExecuteCode code extensionId token) this =
     afterwards (executeCode_submit env this code extensionId token)"

text \<open>A history: operations, each with what the collaborators answered during it.\<close>

fun history ::
  "(environment \<times> operation) list \<Rightarrow> NotebookKernelExecution \<Rightarrow> NotebookKernelExecution" where
  "history [] this = this"
| "history (step # steps) this = history steps (perform (fst step) (snd step) this)"


section \<open>executeCode: streaming the outputs\<close>

text \<open>
  The second part of the generator's body, from \<^verbatim>\<open>let completed = false\<close> to the end,
  as a machine. Its steps are the stretches of code that run without interruption:
  JavaScript runs one callback at a time, so the execution's events, the promise
  callbacks and the consumer's calls of \<^verbatim>\<open>next()\<close> interleave only at an \<^verbatim>\<open>await\<close>, at a
  \<^verbatim>\<open>yield\<close>, and before the body starts.
\<close>

type_synonym NotebookCellOutput = string

text \<open>The state of a promise, or of a \<^verbatim>\<open>Deferred\<close>.\<close>

datatype deferred = Waiting | Resolved | Failed error

text \<open>
  Where the generator is suspended: before its body has run, at the
  \<^verbatim>\<open>await Promise.race(...)\<close>, at the \<^verbatim>\<open>yield\<close>, or finished, by returning or by throwing.
\<close>

datatype position = NotStarted | AtAwait | AtYield | Returned | Thrown error

text \<open>
  \<open>completed\<close>, \<open>outputs\<close> and \<open>outputsReceived\<close> are the variables of the source; the
  deferred objects that \<open>outputsReceived\<close> holds one after the other are numbered.
  \<open>doneDeferred\<close> is \<^verbatim>\<open>done\<close>, \<open>resultPromise\<close> is \<^verbatim>\<open>result.result\<close>, \<open>sessionSeen\<close> is the local
  \<^verbatim>\<open>session\<close>. \<open>subscribed\<close> tells whether the listener of \<^verbatim>\<open>result.onDidEmitOutput\<close> is
  registered and not yet disposed. \<open>race\<close> is the promise made by the last
  \<^verbatim>\<open>Promise.race([outputsReceived.promise, done.promise])\<close> and \<open>awaited\<close> the number of the
  deferred it was made from. \<open>tracked\<close> records the calls of
  \<^verbatim>\<open>trackDisplayDataForExtension\<close>, and \<open>yielded\<close> what the consumer has been given so far.
\<close>

record generator =
  position :: position
  completed :: bool
  subscribed :: bool
  resultPromise :: deferred
  doneDeferred :: deferred
  outputs :: "NotebookCellOutput list"
  outputsReceived :: nat
  awaited :: nat
  race :: deferred
  sessionSeen :: "IKernelSession option"
  tracked :: "(IKernelSession \<times> NotebookCellOutput) list"
  yielded :: "NotebookCellOutput list"

definition suspendedStart :: generator where
  "suspendedStart =
     \<lparr>position = NotStarted, completed = False, subscribed = False, resultPromise = Waiting,
      doneDeferred = Waiting, outputs = [], outputsReceived = 0, awaited = 0, race = Waiting,
      sessionSeen = None, tracked = [], yielded = []\<rparr>"

text \<open>
  What can happen. \<open>Next\<close>: the consumer calls \<^verbatim>\<open>next()\<close> on the suspended generator (a
  call made while the generator runs is served at the following \<^verbatim>\<open>yield\<close>: it is a \<open>Next\<close>
  right after that \<^verbatim>\<open>yield\<close>). \<open>Emit\<close>: the execution fires \<^verbatim>\<open>onDidEmitOutput\<close>. \<open>Settle\<close>:
  \<^verbatim>\<open>result.result\<close> is fulfilled or rejected. \<open>Finally\<close>: the callback given to
  \<^verbatim>\<open>result.result.finally\<close> runs. \<open>DoneSettles\<close>: the callback that
  \<^verbatim>\<open>createDeferredFromPromise\<close> attached to \<^verbatim>\<open>result.result\<close> resolves or rejects \<^verbatim>\<open>done\<close>.
  \<open>Wake\<close>: the generator resumes after the \<^verbatim>\<open>await\<close>, and reads \<^verbatim>\<open>this.kernel.session\<close>.
  A consumer that gives the generator up with \<^verbatim>\<open>return()\<close> or \<^verbatim>\<open>throw()\<close> ends it from outside;
  that is not a step of the body and not an event here.
\<close>

datatype event =
    Next
  | Emit NotebookCellOutput
  | Settle deferred
  | Finally
  | DoneSettles
  | Wake "IKernelSession option"

text \<open>
  \<^verbatim>\<open>await Promise.race([outputsReceived.promise, done.promise])\<close>: the deferred held by
  \<open>outputsReceived\<close> is never a resolved one (it is replaced as soon as it is resolved),
  so the race starts as \<^verbatim>\<open>done\<close> stands.
\<close>

definition awaitRace :: "generator \<Rightarrow> generator" where
  "awaitRace g = g\<lparr>position := AtAwait, awaited := outputsReceived g, race := doneDeferred g\<rparr>"

text \<open>
  From the head of the inner \<^verbatim>\<open>while (outputs.length)\<close>: shift one output, track it when
  there is a session, and yield it; with nothing buffered, leave the outer loop when
  \<^verbatim>\<open>done.completed\<close>, and go back to the \<^verbatim>\<open>await\<close> otherwise.
\<close>

definition continueLoop :: "generator \<Rightarrow> generator" where
  "continueLoop g =
     (case outputs g of
        output # rest \<Rightarrow>
          g\<lparr>outputs := rest,
            tracked := (case sessionSeen g of
                          Some s \<Rightarrow> tracked g @ [(s, output)]
                        | None \<Rightarrow> tracked g),
            yielded := yielded g @ [output],
            position := AtYield\<rparr>
      | [] \<Rightarrow>
          if doneDeferred g \<noteq> Waiting then g\<lparr>position := Returned\<rparr> else awaitRace g)"

text \<open>
  One event; \<open>None\<close> when it cannot happen in this state. The callback of \<^verbatim>\<open>finally\<close> was
  attached to \<^verbatim>\<open>result.result\<close> before the one that settles \<^verbatim>\<open>done\<close>, so it runs first.
  \<^verbatim>\<open>createDeferredFromPromise\<close> is a helper of another file: \<^verbatim>\<open>done\<close> is taken to settle
  as \<^verbatim>\<open>result.result\<close> did, and \<^verbatim>\<open>done.completed\<close> to hold from then on.
\<close>

fun step :: "event \<Rightarrow> generator \<Rightarrow> generator option" where
  "step Next g =
     (case position g of
        NotStarted \<Rightarrow> Some (awaitRace (g\<lparr>subscribed := True\<rparr>))
      | AtYield \<Rightarrow> Some (continueLoop g)
      | AtAwait \<Rightarrow> None
      | Returned \<Rightarrow> Some g
      | Thrown ex \<Rightarrow> Some g)"
| "step (Emit e) g =
     (if position g = NotStarted then None
      else if subscribed g
      then Some (g\<lparr>outputs := outputs g @ [e],
                   race := (if awaited g = outputsReceived g \<and> race g = Waiting
                            then Resolved else race g),
                   outputsReceived := outputsReceived g + 1\<rparr>)
      else Some g)"
| "step (Settle r) g =
     (if position g \<noteq> NotStarted \<and> resultPromise g = Waiting \<and> r \<noteq> Waiting
      then Some (g\<lparr>resultPromise := r\<rparr>) else None)"
| "step Finally g =
     (if resultPromise g \<noteq> Waiting \<and> \<not> completed g
      then Some (g\<lparr>completed := True, subscribed := False\<rparr>) else None)"
| "step DoneSettles g =
     (if completed g \<and> doneDeferred g = Waiting
      then Some (g\<lparr>doneDeferred := resultPromise g,
                   race := (if race g = Waiting then resultPromise g else race g)\<rparr>)
      else None)"
| "step (Wake s) g =
     (if position g = AtAwait
      then (case race g of
              Waiting \<Rightarrow> None
            | Failed ex \<Rightarrow> Some (g\<lparr>position := Thrown ex\<rparr>)
            | Resolved \<Rightarrow>
                Some (continueLoop
                        (g\<lparr>outputsReceived := (if completed g then outputsReceived g + 1
                                                 else outputsReceived g),
                           sessionSeen := s\<rparr>)))
      else None)"

text \<open>A schedule: the events in the order they happen.\<close>

fun run :: "event list \<Rightarrow> generator \<Rightarrow> generator option" where
  "run [] g = Some g"
| "run (e # es) g = (case step e g of None \<Rightarrow> None | Some g' \<Rightarrow> run es g')"

text \<open>
  The outputs the execution emits up to the moment the \<^verbatim>\<open>finally\<close> callback runs, which
  is when the request has reached its terminal state and the listener is disposed.
\<close>

fun emitted :: "event list \<Rightarrow> NotebookCellOutput list" where
  "emitted [] = []"
| "emitted (Emit e # es) = e # emitted es"
| "emitted (Finally # es) = []"
| "emitted (_ # es) = emitted es"

definition finishedGenerator :: "generator \<Rightarrow> bool" where
  "finishedGenerator g \<longleftrightarrow> (case position g of Returned \<Rightarrow> True | Thrown ex \<Rightarrow> True | _ \<Rightarrow> False)"

text \<open>What holds of the generator's variables between any two events.\<close>

definition consistent :: "generator \<Rightarrow> bool" where
  "consistent g \<longleftrightarrow>
     (position g = NotStarted \<longrightarrow>
        \<not> subscribed g \<and> resultPromise g = Waiting \<and> outputs g = []) \<and>
     (position g \<noteq> NotStarted \<longrightarrow> subscribed g = (\<not> completed g)) \<and>
     (completed g \<longrightarrow> resultPromise g \<noteq> Waiting) \<and>
     (doneDeferred g \<noteq> Waiting \<longrightarrow> completed g) \<and>
     (position g = AtAwait \<and> race g = Waiting \<longrightarrow>
        outputs g = [] \<and> awaited g = outputsReceived g \<and> doneDeferred g = Waiting) \<and>
     (position g = AtAwait \<and> race g \<noteq> Waiting \<and> race g \<noteq> Resolved \<longrightarrow>
        outputs g = [] \<and> doneDeferred g \<noteq> Waiting) \<and>
     (finishedGenerator g \<longrightarrow> outputs g = [] \<and> doneDeferred g \<noteq> Waiting)"

text \<open>
  The consumer keeps asking and the generator runs whenever it can: the step the generator
  takes next, \<open>n\<close> times in a row.
\<close>

definition advance :: "IKernelSession option \<Rightarrow> generator \<Rightarrow> generator option" where
  "advance s g = (if position g = AtAwait then step (Wake s) g else step Next g)"

fun advances :: "nat \<Rightarrow> IKernelSession option \<Rightarrow> generator \<Rightarrow> generator option" where
  "advances 0 s g = Some g"
| "advances (Suc n) s g = (case advance s g of None \<Rightarrow> None | Some g' \<Rightarrow> advances n s g')"

section \<open>Invariant of the queue registry\<close>

text \<open>
  Every queue constructed so far has exactly one close handler, registered when it was
  constructed, and the queue stored for a document has the handler of that document.
\<close>

definition registered :: "NotebookKernelExecution \<Rightarrow> bool" where
  "registered this \<longleftrightarrow>
     map snd (closeListeners this) = [0..<length (queues this)] \<and>
     (\<forall>d q. documentExecutions this d = Some q \<longrightarrow> (d, q) \<in> set (closeListeners this))"

section \<open>Sample collaborators and objects\<close>

text \<open>
  A kernel that starts session \<open>7\<close>, with queues that are empty and have not failed, whose
  cancellation succeeds and whose wait for completion fails.
\<close>

definition quietEnvironment :: environment where
  "quietEnvironment =
     \<lparr>JVSC_EXTENSION_ID = ''ms-toolsai.jupyter'',
      POWER_TOYS_EXTENSION_ID = ''ms-toolsai.vscode-jupyter-powertoys'',
      connectionKind = ''startUsingLocalKernelSpec'',
      restarting = Fulfilled (),
      start = (\<lambda>_. Fulfilled 7),
      isPostInitializedInProgress = False,
      kernelSession = Some 7,
      isEmpty = (\<lambda>_. True),
      failed = (\<lambda>_. False),
      cancel = (\<lambda>_ _. Fulfilled ()),
      waitForCompletion = (\<lambda>_ _. Rejected (Error ''cancelled''))\<rparr>"

text \<open>The same kernel once its queues have failed and been emptied.\<close>

definition brokenEnvironment :: environment where
  "brokenEnvironment = quietEnvironment\<lparr>failed := (\<lambda>_. True)\<rparr>"

text \<open>The same kernel while its queues are busy.\<close>

definition busyEnvironment :: environment where
  "busyEnvironment = quietEnvironment\<lparr>isEmpty := (\<lambda>_. False)\<rparr>"

definition codeCell :: NotebookCell where
  "codeCell = \<lparr>index = 0, kind = Code, notebook = 1, executionSummary = None\<rparr>"

definition markupCell :: NotebookCell where
  "markupCell = \<lparr>index = 1, kind = Markup, notebook = 1, executionSummary = None\<rparr>"

text \<open>The object of notebook \<open>1\<close> after one cell has been executed.\<close>

definition opened :: NotebookKernelExecution where
  "opened = history [(quietEnvironment, ExecuteCell codeCell None)] (constructed 1 1)"

text \<open>A cell of notebook \<open>1\<close> that has gone idle with execution order \<open>n\<close>.\<close>

definition idleCell :: "int \<Rightarrow> NotebookCellExecutionStateChangeEvent" where
  "idleCell n =
     \<lparr>cell = \<lparr>index = 0, kind = Code, notebook = 1,
              executionSummary = Some \<lparr>executionOrder = Some n\<rparr>\<rparr>,
      state = Idle\<rparr>"

text \<open>The object of notebook \<open>1\<close> after the fifth execution has finished.\<close>

definition counted :: NotebookKernelExecution where
  "counted = history [(quietEnvironment, CellExecutionStateChanged (idleCell 5))] (constructed 1 1)"

text \<open>
  One output arrives while the generator waits, two while the consumer holds the first;
  the request completes; the consumer asks until the generator ends.
\<close>

definition sampleSchedule :: "event list" where
  "sampleSchedule =
     [Next, Emit ''a'', Wake (Some 7), Emit ''b'', Emit ''c'', Settle Resolved, Next, Finally,
      DoneSettles, Next, Next]"

section \<open>Properties of the queue registry\<close>

lemma registered_constructed: "registered (constructed kn nb)"
  by (simp add: registered_def constructed_def)

lemma registered_new:
  "registered this \<Longrightarrow> registered (snd (newCellExecutionQueue this d p))"
  by (auto simp: registered_def newCellExecutionQueue_def Let_def)

lemma registered_getOrCreate:
  "registered this \<Longrightarrow> registered (snd (getOrCreateCellExecutionQueue env this d p))"
  by (auto simp: getOrCreateCellExecutionQueue_def registered_new split: option.splits)

lemma after_finished: "after (finished this t) = this"
  by (simp add: finished_def)

lemma after_onWillInterrupt: "after (onWillInterrupt env this) = this"
  by (simp add: onWillInterrupt_def Let_def after_finished split: option.splits)

lemma after_onWillCancel: "after (onWillCancel env this) = this"
  by (simp add: onWillCancel_def after_finished split: option.splits)

lemma after_onWillRestart: "after (onWillRestart env this sp) = this"
  by (simp add: onWillRestart_def Let_def after_finished split: option.splits settled.splits)

lemma after_resumeCellExecution:
  "after (resumeCellExecution env this c info) =
     (if kind c = Markup then this
      else snd (getOrCreateCellExecutionQueue env this (notebook c)
                  (start env (DisplayOptions False))))"
  by (simp add: resumeCellExecution_def Let_def after_finished kernel_start_def case_prod_beta)

lemma after_executeCell:
  "after (executeCell env this c co) = this \<or>
   (\<exists>p. after (executeCell env this c co) =
          snd (getOrCreateCellExecutionQueue env this (notebook c) p))"
  by (auto simp add: executeCell_def Let_def after_finished case_prod_beta split: settled.splits)

lemma afterwards_executeCode:
  "afterwards (executeCode_submit env this code ext token) = this \<or>
   (\<exists>p. afterwards (executeCode_submit env this code ext token) =
          snd (getOrCreateCellExecutionQueue env this (thisNotebook this) p))"
  by (auto simp add: executeCode_submit_def Let_def case_prod_beta)

text \<open>
  An operation leaves the object alone, or goes through
  \<open>getOrCreateCellExecutionQueue\<close> once, or assigns the visible execution count.
\<close>

lemma perform_cases:
  "perform env op this = this \<or>
   (\<exists>d p. perform env op this = snd (getOrCreateCellExecutionQueue env this d p)) \<or>
   (\<exists>n. perform env op this = this\<lparr>visibleExecutionCount := n\<rparr>)"
proof (cases op)
  case (ExecuteCell c co)
  then show ?thesis using after_executeCell[of env this c co] by auto
next
  case (ExecuteCode code ext token)
  then show ?thesis using afterwards_executeCode[of env this code ext token] by auto
next
  case (ResumeCellExecution c info)
  then show ?thesis by (auto simp: after_resumeCellExecution)
next
  case (CellExecutionStateChanged e)
  then show ?thesis
    by (auto simp: onDidChangeNotebookCellExecutionState_def split: option.splits)
qed (auto simp: onStarted_def onRestarted_def after_onWillInterrupt after_onWillCancel
       after_onWillRestart)

lemma registered_perform: "registered this \<Longrightarrow> registered (perform env op this)"
  using perform_cases[of env op this]
  by (auto simp: registered_getOrCreate) (simp add: registered_def)

lemma registered_history: "registered this \<Longrightarrow> registered (history steps this)"
  by (induction steps arbitrary: this) (auto simp: registered_perform)

lemma registered_reachable: "registered (history steps (constructed kn nb))"
  by (rule registered_history [OF registered_constructed])

lemma opened_eq:
  "opened = \<lparr>thisNotebook = 1, kernelNotebook = 1, visibleExecutionCount = 0,
             documentExecutions = [1 \<mapsto> 0], queues = [Fulfilled 7],
             closeListeners = [(1, 0)]\<rparr>"
  by (simp add: opened_def constructed_def executeCell_def codeCell_def quietEnvironment_def
      restarting_then_start_def andThen_def kernel_start_def getOrCreateCellExecutionQueue_def
      newCellExecutionQueue_def queue_waitForCompletion_def Let_def)

section \<open>Closing a notebook document\<close>

lemma closeListener_calls:
  "fst (closeListener env l e) =
     (if e = fst l \<and> (\<not> failed env (snd l) \<or> \<not> isEmpty env (snd l))
      then [Cancel (snd l) (Some True)] else [])"
  by (simp add: closeListener_def queue_cancel_def resolved_def)

lemma close_calls_mem:
  "c \<in> set (onDidCloseNotebookDocument env this e) \<longleftrightarrow>
   (\<exists>l \<in> set (closeListeners this). c = Cancel (snd l) (Some True) \<and> e = fst l \<and>
      (\<not> failed env (snd l) \<or> \<not> isEmpty env (snd l)))"
  by (auto simp: onDidCloseNotebookDocument_def closeListener_calls split: if_splits)

text \<open>
  C1, as the code has it. In any object reached from the constructor, take a queue \<open>q\<close>
  whose close handler was registered for \<open>document\<close>. A close event for \<open>e\<close> calls
  \<^verbatim>\<open>cancel(true)\<close> on \<open>q\<close> exactly when \<open>e\<close> is that document and the queue has not failed or
  is not empty: only a queue that is both failed and empty is left alone.
\<close>

theorem close_cancels_unless_failed_and_empty:
  assumes "this = history steps (constructed kn nb)"
      and "(document, q) \<in> set (closeListeners this)"
  shows "Cancel q (Some True) \<in> set (onDidCloseNotebookDocument env this e) \<longleftrightarrow>
         e = document \<and> (\<not> failed env q \<or> \<not> isEmpty env q)"
proof -
  have "registered this"
    using assms(1) registered_reachable by simp
  then have d: "distinct (map snd (closeListeners this))"
    by (simp add: registered_def)
  have uniq: "\<And>l. l \<in> set (closeListeners this) \<Longrightarrow> snd l = q \<Longrightarrow> l = (document, q)"
  proof -
    fix l assume l: "l \<in> set (closeListeners this)" "snd l = q"
    have "inj_on snd (set (closeListeners this))"
      using d by (simp add: distinct_map)
    then show "l = (document, q)"
      using l assms(2) inj_onD [of snd "set (closeListeners this)" l "(document, q)"] by simp
  qed
  show ?thesis
  proof
    assume "Cancel q (Some True) \<in> set (onDidCloseNotebookDocument env this e)"
    then obtain l where l: "l \<in> set (closeListeners this)" "snd l = q" "e = fst l"
        "\<not> failed env (snd l) \<or> \<not> isEmpty env (snd l)"
      unfolding close_calls_mem by auto
    from uniq [OF l(1,2)] l(3,4)
    show "e = document \<and> (\<not> failed env q \<or> \<not> isEmpty env q)"
      by simp
  next
    assume "e = document \<and> (\<not> failed env q \<or> \<not> isEmpty env q)"
    then show "Cancel q (Some True) \<in> set (onDidCloseNotebookDocument env this e)"
      unfolding close_calls_mem using assms(2) by (intro bexI [of _ "(document, q)"]) auto
  qed
qed

text \<open>
  The rule at work: a queue that has failed and is empty is not cancelled when its
  document closes.
\<close>

theorem close_cancels_unless_failed_and_empty_witness:
  "opened = history [(quietEnvironment, ExecuteCell codeCell None)] (constructed 1 1) \<and>
   (1, 0) \<in> set (closeListeners opened) \<and>
   failed brokenEnvironment 0 \<and> isEmpty brokenEnvironment 0 \<and>
   Cancel 0 (Some True) \<notin> set (onDidCloseNotebookDocument brokenEnvironment opened 1)"
proof -
  have r: "opened = history [(quietEnvironment, ExecuteCell codeCell None)] (constructed 1 1)"
    by (rule opened_def)
  have h: "(1, 0) \<in> set (closeListeners opened)"
    by (simp add: opened_eq)
  have f: "failed brokenEnvironment 0" and e: "isEmpty brokenEnvironment 0"
    by (simp_all add: brokenEnvironment_def quietEnvironment_def)
  have n: "Cancel 0 (Some True) \<notin> set (onDidCloseNotebookDocument brokenEnvironment opened 1)"
    using close_cancels_unless_failed_and_empty [OF r h, of brokenEnvironment 1] f e by simp
  from r h f e n show ?thesis by (intro conjI)
qed

text \<open>
  C1 as the specification words it fails: an empty queue that has not failed is
  cancelled, forcefully, when its document closes.
\<close>

theorem close_cancels_empty_unfailed_queue:
  "(1, 0) \<in> set (closeListeners opened) \<and>
   isEmpty quietEnvironment 0 \<and> \<not> failed quietEnvironment 0 \<and>
   Cancel 0 (Some True) \<in> set (onDidCloseNotebookDocument quietEnvironment opened 1)"
  by (simp add: opened_eq onDidCloseNotebookDocument_def closeListener_def queue_cancel_def
      quietEnvironment_def)


section \<open>Reusing or replacing the queue of a document\<close>

text \<open>The queue stored for a document is one of the queues constructed so far.\<close>

lemma stored_queue_exists:
  assumes "registered this" and "documentExecutions this d = Some q"
  shows "q < length (queues this)"
proof -
  have "(d, q) \<in> set (closeListeners this)"
    using assms by (simp add: registered_def)
  then have m: "q \<in> set (map snd (closeListeners this))"
    by force
  have e: "map snd (closeListeners this) = [0..<length (queues this)]"
    using assms(1) by (simp add: registered_def)
  have "q \<in> set [0..<length (queues this)]"
    using m unfolding e .
  then show ?thesis
    by simp
qed

lemma getOrCreate_reuse:
  "documentExecutions this d = Some q0 \<Longrightarrow> \<not> isEmpty env q0 \<Longrightarrow> \<not> failed env q0 \<Longrightarrow>
   getOrCreateCellExecutionQueue env this d p = (q0, this)"
  by (simp add: getOrCreateCellExecutionQueue_def)

lemma getOrCreate_new:
  "\<not> (\<exists>q0. documentExecutions this d = Some q0 \<and> \<not> isEmpty env q0 \<and> \<not> failed env q0) \<Longrightarrow>
   getOrCreateCellExecutionQueue env this d p = newCellExecutionQueue this d p"
  by (auto simp add: getOrCreateCellExecutionQueue_def split: option.splits)

text \<open>
  C2, as the code has it. In any object reached from the constructor, a call of
  \<open>getOrCreateCellExecutionQueue\<close> hands back a queue that existed before exactly when
  the document has a stored queue that is non-empty and has not failed: both, not one of
  the two. Then the stored queue is returned and the object is unchanged. Otherwise the
  queue returned is a new one, constructed with the session promise of this call and
  stored for the document. A queue that has failed is never the one returned.
\<close>

theorem queue_reused_iff_nonempty_and_not_failed:
  assumes "this = history steps (constructed kn nb)"
  shows "(fst (getOrCreateCellExecutionQueue env this document p) < length (queues this) \<longleftrightarrow>
            (\<exists>q0. documentExecutions this document = Some q0 \<and> \<not> isEmpty env q0 \<and> \<not> failed env q0)) \<and>
         (\<forall>q0. documentExecutions this document = Some q0 \<and> \<not> isEmpty env q0 \<and> \<not> failed env q0 \<longrightarrow>
            getOrCreateCellExecutionQueue env this document p = (q0, this)) \<and>
         (\<not> (\<exists>q0. documentExecutions this document = Some q0 \<and> \<not> isEmpty env q0 \<and> \<not> failed env q0) \<longrightarrow>
            fst (getOrCreateCellExecutionQueue env this document p) = length (queues this) \<and>
            queues (snd (getOrCreateCellExecutionQueue env this document p)) = queues this @ [p] \<and>
            documentExecutions (snd (getOrCreateCellExecutionQueue env this document p)) document
              = Some (length (queues this))) \<and>
         (\<forall>q0. failed env q0 \<and> q0 < length (queues this) \<longrightarrow>
            fst (getOrCreateCellExecutionQueue env this document p) \<noteq> q0)"
    (is "(?old \<longleftrightarrow> ?reusable) \<and> ?same \<and> (\<not> ?reusable \<longrightarrow> ?fresh) \<and> ?unfailed")
proof -
  have reg: "registered this"
    using assms registered_reachable by simp
  have same: ?same
    by (simp add: getOrCreate_reuse)
  show ?thesis
  proof (cases ?reusable)
    case True
    then obtain q0 where q0: "documentExecutions this document = Some q0"
        "\<not> isEmpty env q0" "\<not> failed env q0"
      by blast
    have g: "fst (getOrCreateCellExecutionQueue env this document p) = q0"
      using q0 by (simp add: getOrCreate_reuse)
    have "q0 < length (queues this)"
      using reg q0(1) by (rule stored_queue_exists)
    then have old: ?old
      using g by simp
    have ?unfailed
      unfolding g using q0(3) by blast
    with True old same show ?thesis
      by blast
  next
    case False
    then have g: "getOrCreateCellExecutionQueue env this document p =
        newCellExecutionQueue this document p"
      by (rule getOrCreate_new)
    have fresh: ?fresh
      unfolding g by (simp add: newCellExecutionQueue_def Let_def)
    then have "\<not> ?old"
      by simp
    moreover have ?unfailed
      using fresh by simp
    ultimately show ?thesis
      using False same fresh by blast
  qed
qed

text \<open>
  A busy queue that has not failed is returned as it is; a failed one is replaced by the
  next new queue.
\<close>

theorem queue_reused_iff_nonempty_and_not_failed_witness:
  "opened = history [(quietEnvironment, ExecuteCell codeCell None)] (constructed 1 1) \<and>
   documentExecutions opened 1 = Some 0 \<and>
   getOrCreateCellExecutionQueue busyEnvironment opened 1 (Fulfilled 8) = (0, opened) \<and>
   fst (getOrCreateCellExecutionQueue brokenEnvironment opened 1 (Fulfilled 8)) = 1"
proof -
  have r: "opened = history [(quietEnvironment, ExecuteCell codeCell None)] (constructed 1 1)"
    by (rule opened_def)
  have d: "documentExecutions opened 1 = Some 0"
    by (simp add: opened_eq)
  have b: "\<not> isEmpty busyEnvironment 0" "\<not> failed busyEnvironment 0"
    by (simp_all add: busyEnvironment_def quietEnvironment_def)
  have f: "failed brokenEnvironment 0"
    by (simp add: brokenEnvironment_def quietEnvironment_def)
  have l: "length (queues opened) = 1"
    by (simp add: opened_eq)
  note busy = queue_reused_iff_nonempty_and_not_failed [OF r, of busyEnvironment 1 "Fulfilled 8"]
  note broken = queue_reused_iff_nonempty_and_not_failed [OF r, of brokenEnvironment 1 "Fulfilled 8"]
  have g: "getOrCreateCellExecutionQueue busyEnvironment opened 1 (Fulfilled 8) = (0, opened)"
    by (rule busy [THEN conjunct2, THEN conjunct1, rule_format, of 0]) (intro conjI d b)
  have nb: "\<not> (\<exists>q0. documentExecutions opened 1 = Some q0 \<and> \<not> isEmpty brokenEnvironment q0 \<and>
            \<not> failed brokenEnvironment q0)"
    using d f by simp
  have n: "fst (getOrCreateCellExecutionQueue brokenEnvironment opened 1 (Fulfilled 8)) = 1"
    using broken [THEN conjunct2, THEN conjunct2, THEN conjunct1, THEN mp, OF nb, THEN conjunct1] l
    by simp
  from r d g n show ?thesis by (intro conjI)
qed

text \<open>
  C2 as the specification words it fails: the stored queue has not failed, which meets
  "non-empty or has not failed", and it is replaced all the same, because it is empty.
\<close>

theorem empty_unfailed_queue_is_replaced:
  "documentExecutions opened 1 = Some 0 \<and>
   isEmpty quietEnvironment 0 \<and> \<not> failed quietEnvironment 0 \<and>
   fst (getOrCreateCellExecutionQueue quietEnvironment opened 1 (Fulfilled 8)) = 1 \<and>
   queues (snd (getOrCreateCellExecutionQueue quietEnvironment opened 1 (Fulfilled 8))) =
     [Fulfilled 7, Fulfilled 8]"
proof -
  have d: "documentExecutions opened 1 = Some 0"
    by (simp add: opened_eq)
  have e: "isEmpty quietEnvironment 0" and f: "\<not> failed quietEnvironment 0"
    by (simp_all add: quietEnvironment_def)
  have g: "getOrCreateCellExecutionQueue quietEnvironment opened 1 (Fulfilled 8) =
      newCellExecutionQueue opened 1 (Fulfilled 8)"
    using d e by (simp add: getOrCreateCellExecutionQueue_def)
  have q: "queues opened = [Fulfilled 7]"
    by (simp add: opened_eq)
  have n: "fst (newCellExecutionQueue opened 1 (Fulfilled 8)) = 1"
    and m: "queues (snd (newCellExecutionQueue opened 1 (Fulfilled 8))) = [Fulfilled 7, Fulfilled 8]"
    using q by (simp_all add: newCellExecutionQueue_def Let_def)
  from d e f n m show ?thesis unfolding g by (intro conjI)
qed

section \<open>The lifecycle hooks\<close>

text \<open>
  C3. With a queue stored for the notebook, the interrupt hook first calls \<^verbatim>\<open>cancel()\<close>
  without the forceful flag; \<^verbatim>\<open>waitForCompletion()\<close> is called next, and only when the
  cancellation has been fulfilled, so never before it. A rejection of the wait is
  swallowed: the hook is then fulfilled. (A rejected cancellation is not swallowed, and
  the hook stays pending as long as the cancellation or the wait does.)
\<close>

theorem interrupt_cancels_then_waits:
  assumes "documentExecutions this (thisNotebook this) = Some q"
  shows "made (onWillInterrupt env this) =
           Cancel q None #
             (if cancel env q None = Fulfilled () then [WaitForCompletion q None] else []) \<and>
         \<not> forceful None \<and>
         later (onWillInterrupt env this) = [] \<and>
         returned (onWillInterrupt env this) =
           (case cancel env q None of
              Fulfilled _ \<Rightarrow>
                (case waitForCompletion env q None of Never \<Rightarrow> Never | _ \<Rightarrow> Fulfilled ())
            | Rejected e \<Rightarrow> Rejected e
            | Never \<Rightarrow> Never)"
  using assms
  by (simp add: onWillInterrupt_def finished_def andThen_def catch_def queue_cancel_def
      queue_waitForCompletion_def split: settled.splits)

text \<open>The wait fails after an interrupt, and the hook still succeeds.\<close>

theorem interrupt_cancels_then_waits_witness:
  "documentExecutions opened (thisNotebook opened) = Some 0 \<and>
   made (onWillInterrupt quietEnvironment opened) = [Cancel 0 None, WaitForCompletion 0 None] \<and>
   waitForCompletion quietEnvironment 0 None = Rejected (Error ''cancelled'') \<and>
   returned (onWillInterrupt quietEnvironment opened) = Fulfilled ()"
proof -
  have d: "documentExecutions opened (thisNotebook opened) = Some 0"
    by (simp add: opened_eq)
  have c: "cancel quietEnvironment 0 None = Fulfilled ()"
    and w: "waitForCompletion quietEnvironment 0 None = Rejected (Error ''cancelled'')"
    by (simp_all add: quietEnvironment_def)
  have m: "made (onWillInterrupt quietEnvironment opened) = [Cancel 0 None, WaitForCompletion 0 None]"
    and t: "returned (onWillInterrupt quietEnvironment opened) = Fulfilled ()"
    using interrupt_cancels_then_waits [OF d, of quietEnvironment] c w by simp_all
  from d m w t show ?thesis by (intro conjI)
qed

text \<open>
  C4. With a queue stored for the notebook and a session promise that settles (or none
  given), the restart hook calls \<^verbatim>\<open>cancel(true)\<close> first, whether the session promise was
  fulfilled or rejected, and \<^verbatim>\<open>waitForCompletion()\<close> after the cancellation has been
  fulfilled; a rejection of the wait is swallowed. When no session was obtained, both
  calls are made before the hook returns and nothing is left for later. When a session
  was obtained the hook returns right after calling \<^verbatim>\<open>cancel(true)\<close>, and the wait is made
  by the continuation.
\<close>

theorem restart_cancels_then_waits:
  assumes "documentExecutions this (thisNotebook this) = Some q"
      and "sessionPromise \<noteq> Some Never"
  shows "made (onWillRestart env this sessionPromise) @ later (onWillRestart env this sessionPromise) =
           Cancel q (Some True) #
             (if cancel env q (Some True) = Fulfilled () then [WaitForCompletion q None] else []) \<and>
         forceful (Some True) \<and>
         (sessionPromise = None \<or> (\<exists>e. sessionPromise = Some (Rejected e)) \<longrightarrow>
            later (onWillRestart env this sessionPromise) = [] \<and>
            returned (onWillRestart env this sessionPromise) =
              (case cancel env q (Some True) of
                 Fulfilled _ \<Rightarrow>
                   (case waitForCompletion env q None of Never \<Rightarrow> Never | _ \<Rightarrow> Fulfilled ())
               | Rejected e \<Rightarrow> Rejected e
               | Never \<Rightarrow> Never)) \<and>
         ((\<exists>s. sessionPromise = Some (Fulfilled s)) \<longrightarrow>
            made (onWillRestart env this sessionPromise) = [Cancel q (Some True)] \<and>
            returned (onWillRestart env this sessionPromise) = Fulfilled ())"
proof (cases sessionPromise)
  case None
  with assms(1) show ?thesis
    by (simp add: onWillRestart_def awaitedSession_def finished_def andThen_def catch_def
        queue_cancel_def queue_waitForCompletion_def split: settled.splits)
next
  case (Some p)
  with assms show ?thesis
    by (cases p)
       (simp_all add: onWillRestart_def awaitedSession_def finished_def andThen_def catch_def
          continuation_def queue_cancel_def queue_waitForCompletion_def split: settled.splits)
qed

text \<open>
  A restart without a session drains the queue before it returns; a restart with a
  session leaves the wait to the continuation.
\<close>

theorem restart_cancels_then_waits_witness:
  "documentExecutions opened (thisNotebook opened) = Some 0 \<and>
   made (onWillRestart quietEnvironment opened (Some (Rejected (Error ''no kernel'')))) =
     [Cancel 0 (Some True), WaitForCompletion 0 None] \<and>
   later (onWillRestart quietEnvironment opened (Some (Rejected (Error ''no kernel'')))) = [] \<and>
   returned (onWillRestart quietEnvironment opened (Some (Rejected (Error ''no kernel'')))) =
     Fulfilled () \<and>
   made (onWillRestart quietEnvironment opened (Some (Fulfilled 7))) = [Cancel 0 (Some True)] \<and>
   later (onWillRestart quietEnvironment opened (Some (Fulfilled 7))) = [WaitForCompletion 0 None]"
proof -
  have d: "documentExecutions opened (thisNotebook opened) = Some 0"
    by (simp add: opened_eq)
  have c: "cancel quietEnvironment 0 (Some True) = Fulfilled ()"
    and w: "waitForCompletion quietEnvironment 0 None = Rejected (Error ''cancelled'')"
    by (simp_all add: quietEnvironment_def)
  have n1: "Some (Rejected (Error ''no kernel'')) \<noteq> Some (Never :: IKernelSession settled)" by simp
  have n2: "Some (Fulfilled 7) \<noteq> Some (Never :: IKernelSession settled)" by simp
  note a = restart_cancels_then_waits [OF d n1, of quietEnvironment]
  note b = restart_cancels_then_waits [OF d n2, of quietEnvironment]
  have a1: "later (onWillRestart quietEnvironment opened (Some (Rejected (Error ''no kernel'')))) = []"
    and a2: "returned (onWillRestart quietEnvironment opened (Some (Rejected (Error ''no kernel'')))) = Fulfilled ()"
    using a c w by simp_all
  have a3: "made (onWillRestart quietEnvironment opened (Some (Rejected (Error ''no kernel'')))) =
     [Cancel 0 (Some True), WaitForCompletion 0 None]"
    using a a1 c by simp
  have b1: "made (onWillRestart quietEnvironment opened (Some (Fulfilled 7))) = [Cancel 0 (Some True)]"
    using b by simp
  have b2: "later (onWillRestart quietEnvironment opened (Some (Fulfilled 7))) = [WaitForCompletion 0 None]"
    using b b1 c by simp
  from d a3 a1 a2 b1 b2 show ?thesis by (intro conjI)
qed

text \<open>
  C5. The cancel hook calls \<^verbatim>\<open>cancel(true)\<close> on the queue stored for the notebook and
  nothing else: no \<^verbatim>\<open>waitForCompletion\<close>, nothing left for later, the object unchanged.
  Without a stored queue it makes no call at all.
\<close>

theorem cancel_hook_cancels_without_waiting:
  "(\<forall>q. documentExecutions this (thisNotebook this) = Some q \<longrightarrow>
      made (onWillCancel env this) = [Cancel q (Some True)] \<and> forceful (Some True) \<and>
      returned (onWillCancel env this) = cancel env q (Some True)) \<and>
   (documentExecutions this (thisNotebook this) = None \<longrightarrow>
      made (onWillCancel env this) = [] \<and> returned (onWillCancel env this) = Fulfilled ()) \<and>
   after (onWillCancel env this) = this \<and>
   later (onWillCancel env this) = [] \<and>
   (\<forall>q c. WaitForCompletion q c \<notin> set (made (onWillCancel env this)))"
  by (auto simp add: onWillCancel_def finished_def queue_cancel_def resolved_def
      split: option.splits)

text \<open>One object with a queue and one without.\<close>

theorem cancel_hook_cancels_without_waiting_witness:
  "documentExecutions opened (thisNotebook opened) = Some 0 \<and>
   made (onWillCancel quietEnvironment opened) = [Cancel 0 (Some True)] \<and>
   documentExecutions (constructed 1 1) (thisNotebook (constructed 1 1)) = None \<and>
   made (onWillCancel quietEnvironment (constructed 1 1)) = []"
proof -
  have d: "documentExecutions opened (thisNotebook opened) = Some 0"
    by (simp add: opened_eq)
  have e: "documentExecutions (constructed 1 1) (thisNotebook (constructed 1 1)) = None"
    by (simp add: constructed_def)
  have m: "made (onWillCancel quietEnvironment opened) = [Cancel 0 (Some True)]"
    using cancel_hook_cancels_without_waiting [of opened quietEnvironment] d by blast
  have n: "made (onWillCancel quietEnvironment (constructed 1 1)) = []"
    using cancel_hook_cancels_without_waiting [of "constructed 1 1" quietEnvironment] e by blast
  from d m e n show ?thesis by (intro conjI)
qed


section \<open>Executing cells\<close>

lemma restarting_then_start_eq:
  "restarting_then_start env opts =
     (case restarting env of
        Fulfilled _ \<Rightarrow> ([KernelStart opts], start env opts)
      | Rejected e \<Rightarrow> ([], Rejected e)
      | Never \<Rightarrow> ([], Never))"
  by (simp add: restarting_then_start_def andThen_def kernel_start_def split: settled.splits)

text \<open>
  C7. Take a code cell whose execution is started: the kernel is not stuck restarting and
  \<^verbatim>\<open>kernel.start\<close> yields a session, so that the cell is queued on the queue \<open>q\<close> of its
  notebook. Then \<open>executeCell\<close> starts the kernel, queues the cell, waits for that cell,
  and its promise settles as the wait does: it is rejected, with the same error, exactly
  when \<^verbatim>\<open>waitForCompletion(cell)\<close> is rejected.
\<close>

theorem executeCell_rethrows:
  assumes "kind c \<noteq> Markup"
      and "restarting env = Fulfilled ()"
      and "start env (DisplayOptions False) = Fulfilled s"
      and "q = fst (getOrCreateCellExecutionQueue env this (notebook c) (Fulfilled s))"
  shows "made (executeCell env this c codeOverride) =
           [KernelStart (DisplayOptions False), QueueCell q c codeOverride,
            WaitForCompletion q (Some c)] \<and>
         returned (executeCell env this c codeOverride) = waitForCompletion env q (Some c) \<and>
         (\<forall>ex. returned (executeCell env this c codeOverride) = Rejected ex \<longleftrightarrow>
               waitForCompletion env q (Some c) = Rejected ex)"
proof -
  have sp: "restarting_then_start env (DisplayOptions False) =
      ([KernelStart (DisplayOptions False)], Fulfilled s)"
    using assms(2,3) by (simp add: restarting_then_start_eq)
  have m: "made (executeCell env this c codeOverride) =
           [KernelStart (DisplayOptions False), QueueCell q c codeOverride,
            WaitForCompletion q (Some c)]"
    using assms(1,4) sp
    by (simp add: executeCell_def Let_def case_prod_beta queue_waitForCompletion_def)
  have r: "returned (executeCell env this c codeOverride) = waitForCompletion env q (Some c)"
    using assms(1,4) sp
    by (simp add: executeCell_def Let_def case_prod_beta queue_waitForCompletion_def
        split: settled.splits)
  from m r show ?thesis by simp
qed

text \<open>
  Before the cell is queued the only other source of a rejection is the session promise:
  then no queue is touched and nothing is waited for.
\<close>

lemma executeCell_without_session:
  assumes "kind c \<noteq> Markup"
      and "snd (restarting_then_start env (DisplayOptions False)) = Rejected e"
  shows "returned (executeCell env this c codeOverride) = Rejected e \<and>
         after (executeCell env this c codeOverride) = this \<and>
         (\<forall>q' c'. WaitForCompletion q' c' \<notin> set (made (executeCell env this c codeOverride)))"
  using assms
  by (auto simp add: executeCell_def Let_def finished_def restarting_then_start_eq
      split: settled.splits)

text \<open>A wait that fails with \<open>cancelled\<close> makes \<open>executeCell\<close> fail with \<open>cancelled\<close>.\<close>

theorem executeCell_rethrows_witness:
  "kind codeCell \<noteq> Markup \<and>
   made (executeCell quietEnvironment opened codeCell None) =
     [KernelStart (DisplayOptions False), QueueCell 1 codeCell None,
      WaitForCompletion 1 (Some codeCell)] \<and>
   waitForCompletion quietEnvironment 1 (Some codeCell) = Rejected (Error ''cancelled'') \<and>
   returned (executeCell quietEnvironment opened codeCell None) = Rejected (Error ''cancelled'')"
proof -
  have k: "kind codeCell \<noteq> Markup"
    by (simp add: codeCell_def)
  have r: "restarting quietEnvironment = Fulfilled ()"
    and s: "start quietEnvironment (DisplayOptions False) = Fulfilled 7"
    and w: "waitForCompletion quietEnvironment 1 (Some codeCell) = Rejected (Error ''cancelled'')"
    by (simp_all add: quietEnvironment_def)
  have q: "1 = fst (getOrCreateCellExecutionQueue quietEnvironment opened (notebook codeCell)
                      (Fulfilled 7))"
    by (simp add: opened_eq codeCell_def getOrCreateCellExecutionQueue_def
        newCellExecutionQueue_def quietEnvironment_def)
  note t = executeCell_rethrows [OF k r s q, of None]
  have m: "made (executeCell quietEnvironment opened codeCell None) =
     [KernelStart (DisplayOptions False), QueueCell 1 codeCell None,
      WaitForCompletion 1 (Some codeCell)]"
    using t by (rule conjunct1)
  have x: "returned (executeCell quietEnvironment opened codeCell None) =
      Rejected (Error ''cancelled'')"
    using t [THEN conjunct2, THEN conjunct1] w by simp
  from k m w x show ?thesis by (intro conjI)
qed

text \<open>
  C8. For a markup cell \<open>resumeCellExecution\<close> and \<open>executeCell\<close> return at once: the
  object is unchanged (no queue constructed, stored or looked at), no call is made on a
  queue or on the kernel, and the promise is fulfilled.
\<close>

theorem markup_cells_are_skipped:
  assumes "kind c = Markup"
  shows "resumeCellExecution env this c info =
           \<lparr>after = this, made = [], returned = Fulfilled (), later = []\<rparr> \<and>
         executeCell env this c codeOverride =
           \<lparr>after = this, made = [], returned = Fulfilled (), later = []\<rparr>"
  using assms by (simp add: resumeCellExecution_def executeCell_def finished_def resolved_def)

text \<open>A markup cell given to an object that already has a queue.\<close>

theorem markup_cells_are_skipped_witness:
  "kind markupCell = Markup \<and>
   after (resumeCellExecution quietEnvironment opened markupCell ''info'') = opened \<and>
   made (resumeCellExecution quietEnvironment opened markupCell ''info'') = [] \<and>
   after (executeCell quietEnvironment opened markupCell None) = opened \<and>
   made (executeCell quietEnvironment opened markupCell None) = []"
proof -
  have k: "kind markupCell = Markup"
    by (simp add: markupCell_def)
  note t = markup_cells_are_skipped [OF k, of quietEnvironment opened "''info''" None]
  have a: "after (resumeCellExecution quietEnvironment opened markupCell ''info'') = opened"
    and b: "made (resumeCellExecution quietEnvironment opened markupCell ''info'') = []"
    by (simp_all add: t [THEN conjunct1])
  have c: "after (executeCell quietEnvironment opened markupCell None) = opened"
    and d: "made (executeCell quietEnvironment opened markupCell None) = []"
    by (simp_all add: t [THEN conjunct2])
  from k a b c d show ?thesis by (intro conjI)
qed

section \<open>Executing code for an extension\<close>

text \<open>
  C9. For one of the two built-in extension identifiers the execution is made from the
  code, the object and its queues are left as they were, and the only calls are the
  kernel's start and, once the session is there, the start of the execution on it. For
  every other identifier the execution is the one \<^verbatim>\<open>queueCode\<close> returns on the queue that
  \<open>getOrCreateCellExecutionQueue\<close> yields for the notebook, which is then the queue stored
  for the notebook.
\<close>

theorem executeCode_queues_only_third_party_code:
  "(extensionId = JVSC_EXTENSION_ID env \<or> extensionId = POWER_TOYS_EXTENSION_ID env \<longrightarrow>
      result (executeCode_submit env this code extensionId token) = FromCode code extensionId \<and>
      afterwards (executeCode_submit env this code extensionId token) = this \<and>
      immediate (executeCode_submit env this code extensionId token) =
        [CodeExecutionFromCode code extensionId] \<and>
      deferred (executeCode_submit env this code extensionId token) =
        (case restarting env of
           Fulfilled _ \<Rightarrow>
             KernelStart (DisplayOptions True) #
               (case start env (DisplayOptions True) of
                  Fulfilled s \<Rightarrow> [ExecutionStart (FromCode code extensionId) s]
                | _ \<Rightarrow> [])
         | _ \<Rightarrow> [])) \<and>
   (extensionId \<noteq> JVSC_EXTENSION_ID env \<and> extensionId \<noteq> POWER_TOYS_EXTENSION_ID env \<longrightarrow>
      (\<exists>q. result (executeCode_submit env this code extensionId token) =
              Queued q code extensionId token \<and>
            immediate (executeCode_submit env this code extensionId token) =
              [QueueCode q code extensionId token] \<and>
            (q, afterwards (executeCode_submit env this code extensionId token)) =
              getOrCreateCellExecutionQueue env this (thisNotebook this)
                (snd (restarting_then_start env
                        (StartOptions False (isPostInitializedInProgress env)))) \<and>
            documentExecutions (afterwards (executeCode_submit env this code extensionId token))
              (thisNotebook this) = Some q) \<and>
      deferred (executeCode_submit env this code extensionId token) =
        fst (restarting_then_start env (StartOptions False (isPostInitializedInProgress env))))"
proof (intro conjI impI)
  assume b: "extensionId = JVSC_EXTENSION_ID env \<or> extensionId = POWER_TOYS_EXTENSION_ID env"
  then show "result (executeCode_submit env this code extensionId token) = FromCode code extensionId"
    and "afterwards (executeCode_submit env this code extensionId token) = this"
    and "immediate (executeCode_submit env this code extensionId token) =
        [CodeExecutionFromCode code extensionId]"
    by (auto simp: executeCode_submit_def Let_def)
  from b show "deferred (executeCode_submit env this code extensionId token) =
        (case restarting env of
           Fulfilled _ \<Rightarrow>
             KernelStart (DisplayOptions True) #
               (case start env (DisplayOptions True) of
                  Fulfilled s \<Rightarrow> [ExecutionStart (FromCode code extensionId) s]
                | _ \<Rightarrow> [])
         | _ \<Rightarrow> [])"
    by (auto simp: executeCode_submit_def Let_def restarting_then_start_eq andThen_def
        split: settled.splits)
next
  assume n: "extensionId \<noteq> JVSC_EXTENSION_ID env \<and> extensionId \<noteq> POWER_TOYS_EXTENSION_ID env"
  let ?p = "snd (restarting_then_start env (StartOptions False (isPostInitializedInProgress env)))"
  let ?g = "getOrCreateCellExecutionQueue env this (thisNotebook this) ?p"
  have stored: "documentExecutions (snd ?g) (thisNotebook this) = Some (fst ?g)"
    by (auto simp: getOrCreateCellExecutionQueue_def newCellExecutionQueue_def Let_def
        split: option.splits)
  from n stored
  show "\<exists>q. result (executeCode_submit env this code extensionId token) =
              Queued q code extensionId token \<and>
            immediate (executeCode_submit env this code extensionId token) =
              [QueueCode q code extensionId token] \<and>
            (q, afterwards (executeCode_submit env this code extensionId token)) = ?g \<and>
            documentExecutions (afterwards (executeCode_submit env this code extensionId token))
              (thisNotebook this) = Some q"
    by (intro exI [of _ "fst ?g"]) (simp add: executeCode_submit_def Let_def case_prod_beta)
  from n show "deferred (executeCode_submit env this code extensionId token) =
        fst (restarting_then_start env (StartOptions False (isPostInitializedInProgress env)))"
    by (simp add: executeCode_submit_def Let_def case_prod_beta)
qed

text \<open>The Jupyter extension's own code bypasses the queue; another extension's is queued.\<close>

theorem executeCode_queues_only_third_party_code_witness:
  "immediate (executeCode_submit quietEnvironment opened ''1+1'' ''ms-toolsai.jupyter''
                \<lparr>isCancellationRequested = False\<rparr>) =
     [CodeExecutionFromCode ''1+1'' ''ms-toolsai.jupyter''] \<and>
   deferred (executeCode_submit quietEnvironment opened ''1+1'' ''ms-toolsai.jupyter''
               \<lparr>isCancellationRequested = False\<rparr>) =
     [KernelStart (DisplayOptions True),
      ExecutionStart (FromCode ''1+1'' ''ms-toolsai.jupyter'') 7] \<and>
   afterwards (executeCode_submit quietEnvironment opened ''1+1'' ''ms-toolsai.jupyter''
                 \<lparr>isCancellationRequested = False\<rparr>) = opened \<and>
   immediate (executeCode_submit quietEnvironment opened ''1+1'' ''other.extension''
                \<lparr>isCancellationRequested = False\<rparr>) =
     [QueueCode 1 ''1+1'' ''other.extension'' \<lparr>isCancellationRequested = False\<rparr>]"
proof -
  let ?t = "\<lparr>isCancellationRequested = False\<rparr>"
  have j: "''ms-toolsai.jupyter'' = JVSC_EXTENSION_ID quietEnvironment \<or>
           ''ms-toolsai.jupyter'' = POWER_TOYS_EXTENSION_ID quietEnvironment"
    by (simp add: quietEnvironment_def)
  have o: "''other.extension'' \<noteq> JVSC_EXTENSION_ID quietEnvironment \<and>
           ''other.extension'' \<noteq> POWER_TOYS_EXTENSION_ID quietEnvironment"
    by (simp add: quietEnvironment_def)
  have r: "restarting quietEnvironment = Fulfilled ()"
    and s: "start quietEnvironment (DisplayOptions True) = Fulfilled 7"
    by (simp_all add: quietEnvironment_def)
  note a = executeCode_queues_only_third_party_code
             [of "''ms-toolsai.jupyter''" quietEnvironment opened "''1+1''" ?t,
              THEN conjunct1, THEN mp, OF j]
  note b = executeCode_queues_only_third_party_code
             [of "''other.extension''" quietEnvironment opened "''1+1''" ?t,
              THEN conjunct2, THEN mp, OF o, THEN conjunct1]
  have a1: "immediate (executeCode_submit quietEnvironment opened ''1+1'' ''ms-toolsai.jupyter'' ?t) =
     [CodeExecutionFromCode ''1+1'' ''ms-toolsai.jupyter'']"
    using a by simp
  have a2: "deferred (executeCode_submit quietEnvironment opened ''1+1'' ''ms-toolsai.jupyter'' ?t) =
     [KernelStart (DisplayOptions True),
      ExecutionStart (FromCode ''1+1'' ''ms-toolsai.jupyter'') 7]"
    using a r s by simp
  have a3: "afterwards (executeCode_submit quietEnvironment opened ''1+1'' ''ms-toolsai.jupyter'' ?t) = opened"
    using a by simp
  have g: "fst (getOrCreateCellExecutionQueue quietEnvironment opened (thisNotebook opened)
      (snd (restarting_then_start quietEnvironment
              (StartOptions False (isPostInitializedInProgress quietEnvironment))))) = 1"
    by (simp add: opened_eq getOrCreateCellExecutionQueue_def
        newCellExecutionQueue_def quietEnvironment_def)
  from b obtain q where q: "immediate (executeCode_submit quietEnvironment opened ''1+1'' ''other.extension'' ?t) =
      [QueueCode q ''1+1'' ''other.extension'' ?t]"
    "(q, afterwards (executeCode_submit quietEnvironment opened ''1+1'' ''other.extension'' ?t)) =
       getOrCreateCellExecutionQueue quietEnvironment opened (thisNotebook opened)
      (snd (restarting_then_start quietEnvironment
              (StartOptions False (isPostInitializedInProgress quietEnvironment))))"
    by blast
  have "q = 1"
    using q(2) [THEN arg_cong, of fst] g by simp
  with q(1) have b1: "immediate (executeCode_submit quietEnvironment opened ''1+1'' ''other.extension'' ?t) =
     [QueueCode 1 ''1+1'' ''other.extension'' ?t]"
    by simp
  from a1 a2 a3 b1 show ?thesis by (intro conjI)
qed

section \<open>The visible execution count\<close>

lemma count_getOrCreate:
  "visibleExecutionCount (snd (getOrCreateCellExecutionQueue env this d p)) =
   visibleExecutionCount this"
  by (simp add: getOrCreateCellExecutionQueue_def newCellExecutionQueue_def Let_def
      split: option.splits)

lemma count_stateChanged:
  "visibleExecutionCount (onDidChangeNotebookCellExecutionState this e) =
     (case executionOrderOf (cell e) of
        Some order \<Rightarrow>
          if notebook (cell e) = kernelNotebook this \<and> state e = Idle \<and> order \<noteq> 0
          then max (visibleExecutionCount this) order
          else visibleExecutionCount this
      | None \<Rightarrow> visibleExecutionCount this)"
  by (simp add: onDidChangeNotebookCellExecutionState_def split: option.splits)

lemma count_other_operations:
  assumes "op \<noteq> KernelStarted" and "op \<noteq> KernelRestarted"
      and "\<And>e. op \<noteq> CellExecutionStateChanged e"
  shows "visibleExecutionCount (perform env op this) = visibleExecutionCount this"
proof (cases op)
  case (ExecuteCell c co)
  then show ?thesis
    using after_executeCell [of env this c co] by (auto simp: count_getOrCreate)
next
  case (ExecuteCode code ext token)
  then show ?thesis
    using afterwards_executeCode [of env this code ext token] by (auto simp: count_getOrCreate)
next
  case (ResumeCellExecution c info)
  then show ?thesis
    by (simp add: after_resumeCellExecution count_getOrCreate)
qed (use assms in \<open>simp_all add: after_onWillInterrupt after_onWillCancel after_onWillRestart\<close>)

lemma count_nonneg_perform:
  assumes "0 \<le> visibleExecutionCount this"
  shows "0 \<le> visibleExecutionCount (perform env op this)"
proof -
  consider "op = KernelStarted" | "op = KernelRestarted"
    | e where "op = CellExecutionStateChanged e"
    | "op \<noteq> KernelStarted" "op \<noteq> KernelRestarted" "\<And>e. op \<noteq> CellExecutionStateChanged e"
    by blast
  then show ?thesis
  proof cases
    case 1
    then show ?thesis by (simp add: onStarted_def)
  next
    case 2
    then show ?thesis by (simp add: onRestarted_def)
  next
    case 3
    with assms show ?thesis
      by (auto simp add: count_stateChanged max_def split: option.splits)
  next
    case 4
    then have "visibleExecutionCount (perform env op this) = visibleExecutionCount this"
      by (rule count_other_operations)
    with assms show ?thesis by simp
  qed
qed

lemma count_nonneg_history:
  "0 \<le> visibleExecutionCount this \<Longrightarrow> 0 \<le> visibleExecutionCount (history steps this)"
  by (induction steps arbitrary: this) (simp_all add: count_nonneg_perform)

lemma count_nonneg_reachable: "0 \<le> visibleExecutionCount (history steps (constructed kn nb))"
  by (rule count_nonneg_history) (simp add: constructed_def)

text \<open>
  C10. In any object reached from the constructor: the count is \<open>0\<close> at construction and
  right after a started or a restarted event; no other operation lowers it; a state
  change to idle of a cell of the kernel's notebook that carries an execution order sets
  it to the maximum of its value and that order; any other state change, and every other
  operation of the class, leaves it as it is.
\<close>

theorem executionCount_reset_and_monotone:
  assumes "this = history steps (constructed kn nb)"
  shows "executionCount (constructed kn nb) = 0 \<and>
         executionCount (perform env KernelStarted this) = 0 \<and>
         executionCount (perform env KernelRestarted this) = 0 \<and>
         (op \<noteq> KernelStarted \<and> op \<noteq> KernelRestarted \<longrightarrow>
            executionCount this \<le> executionCount (perform env op this)) \<and>
         (notebook (cell e) = kernelNotebook this \<and> state e = Idle \<and>
          executionOrderOf (cell e) = Some order \<longrightarrow>
            executionCount (perform env (CellExecutionStateChanged e) this) =
              max (executionCount this) order) \<and>
         (notebook (cell e) \<noteq> kernelNotebook this \<or> state e \<noteq> Idle \<or>
          executionOrderOf (cell e) = None \<longrightarrow>
            executionCount (perform env (CellExecutionStateChanged e) this) =
              executionCount this) \<and>
         (op \<noteq> KernelStarted \<and> op \<noteq> KernelRestarted \<and>
          (\<forall>e'. op \<noteq> CellExecutionStateChanged e') \<longrightarrow>
            executionCount (perform env op this) = executionCount this)"
proof -
  have nonneg: "0 \<le> visibleExecutionCount this"
    using assms count_nonneg_reachable by simp
  have init: "executionCount (constructed kn nb) = 0"
    by (simp add: executionCount_def constructed_def)
  have started: "executionCount (perform env KernelStarted this) = 0"
    and restarted: "executionCount (perform env KernelRestarted this) = 0"
    by (simp_all add: executionCount_def onStarted_def onRestarted_def)
  have other: "op \<noteq> KernelStarted \<and> op \<noteq> KernelRestarted \<and>
          (\<forall>e'. op \<noteq> CellExecutionStateChanged e') \<longrightarrow>
            executionCount (perform env op this) = executionCount this"
    by (simp add: executionCount_def count_other_operations)
  have idle: "notebook (cell e) = kernelNotebook this \<and> state e = Idle \<and>
          executionOrderOf (cell e) = Some order \<longrightarrow>
            executionCount (perform env (CellExecutionStateChanged e) this) =
              max (executionCount this) order"
    using nonneg by (simp add: executionCount_def count_stateChanged)
  have skipped: "notebook (cell e) \<noteq> kernelNotebook this \<or> state e \<noteq> Idle \<or>
          executionOrderOf (cell e) = None \<longrightarrow>
            executionCount (perform env (CellExecutionStateChanged e) this) =
              executionCount this"
    by (auto simp add: executionCount_def count_stateChanged split: option.splits)
  have mono: "op \<noteq> KernelStarted \<and> op \<noteq> KernelRestarted \<longrightarrow>
            executionCount this \<le> executionCount (perform env op this)"
  proof (cases "\<exists>e'. op = CellExecutionStateChanged e'")
    case True
    then show ?thesis
      by (auto simp add: executionCount_def count_stateChanged split: option.splits)
  next
    case False
    then show ?thesis
      using other by simp
  qed
  from init started restarted mono idle skipped other show ?thesis
    by (intro conjI)
qed

lemma counted_count: "executionCount counted = 5"
  by (simp add: counted_def idleCell_def constructed_def executionCount_def
      onDidChangeNotebookCellExecutionState_def executionOrderOf_def)

lemma counted_notebook: "kernelNotebook counted = 1"
  by (simp add: counted_def idleCell_def constructed_def
      onDidChangeNotebookCellExecutionState_def executionOrderOf_def)

text \<open>
  From a count of \<open>5\<close>: an idle cell of order \<open>3\<close> leaves \<open>5\<close>, one of order \<open>8\<close> gives \<open>8\<close>,
  executing a cell leaves \<open>5\<close>, a restart gives \<open>0\<close>.
\<close>

theorem executionCount_reset_and_monotone_witness:
  "counted = history [(quietEnvironment, CellExecutionStateChanged (idleCell 5))] (constructed 1 1) \<and>
   executionCount counted = 5 \<and>
   executionCount (perform quietEnvironment (CellExecutionStateChanged (idleCell 3)) counted) = 5 \<and>
   executionCount (perform quietEnvironment (CellExecutionStateChanged (idleCell 8)) counted) = 8 \<and>
   executionCount (perform quietEnvironment (ExecuteCell codeCell None) counted) = 5 \<and>
   executionCount (perform quietEnvironment KernelRestarted counted) = 0"
proof -
  have r: "counted = history [(quietEnvironment, CellExecutionStateChanged (idleCell 5))] (constructed 1 1)"
    by (rule counted_def)
  have i: "\<And>n. notebook (cell (idleCell n)) = kernelNotebook counted \<and> state (idleCell n) = Idle \<and>
      executionOrderOf (cell (idleCell n)) = Some n"
    by (simp add: idleCell_def counted_notebook executionOrderOf_def)
  note t = executionCount_reset_and_monotone [OF r]
  have a: "executionCount (perform quietEnvironment (CellExecutionStateChanged (idleCell 3)) counted) = 5"
    using t [of quietEnvironment _ "idleCell 3" 3, THEN conjunct2, THEN conjunct2, THEN conjunct2,
             THEN conjunct2, THEN conjunct1, THEN mp, OF i]
    by (simp add: counted_count)
  have b: "executionCount (perform quietEnvironment (CellExecutionStateChanged (idleCell 8)) counted) = 8"
    using t [of quietEnvironment _ "idleCell 8" 8, THEN conjunct2, THEN conjunct2, THEN conjunct2,
             THEN conjunct2, THEN conjunct1, THEN mp, OF i]
    by (simp add: counted_count)
  have c: "executionCount (perform quietEnvironment (ExecuteCell codeCell None) counted) = 5"
    using t [of quietEnvironment "ExecuteCell codeCell None", THEN conjunct2, THEN conjunct2,
             THEN conjunct2, THEN conjunct2, THEN conjunct2, THEN conjunct2]
    by (simp add: counted_count)
  have d: "executionCount (perform quietEnvironment KernelRestarted counted) = 0"
    using t [of quietEnvironment, THEN conjunct2, THEN conjunct2, THEN conjunct1] .
  from r counted_count a b c d show ?thesis by (intro conjI)
qed


section \<open>The stream of outputs\<close>

lemma consistent_start: "consistent suspendedStart"
  by (simp add: consistent_def suspendedStart_def finishedGenerator_def)

lemma step_consistent:
  assumes "consistent g" and "step e g = Some g'"
  shows "consistent g'"
proof (cases e)
  case Next
  with assms show ?thesis
    by (cases "position g"; cases "outputs g")
       (auto simp: consistent_def continueLoop_def awaitRace_def finishedGenerator_def
             split: if_splits)
next
  case (Emit x)
  with assms show ?thesis
    by (auto simp: consistent_def finishedGenerator_def split: if_splits position.splits)
next
  case (Settle r)
  with assms show ?thesis
    by (auto simp: consistent_def finishedGenerator_def split: if_splits position.splits)
next
  case Finally
  with assms show ?thesis
    by (auto simp: consistent_def finishedGenerator_def split: if_splits position.splits)
next
  case DoneSettles
  with assms show ?thesis
    by (auto simp: consistent_def finishedGenerator_def split: if_splits position.splits)
next
  case (Wake s)
  with assms show ?thesis
    by (cases "race g"; cases "outputs g")
       (auto simp: consistent_def continueLoop_def awaitRace_def finishedGenerator_def
             split: if_splits)
qed


text \<open>Every event but an emission leaves the outputs, yielded or buffered, as they are.\<close>

lemma emitted_Cons:
  "emitted (e # es) = (if e = Finally then [] else emitted [e] @ emitted es)"
  by (cases e) simp_all

lemma step_completed:
  "step e g = Some g' \<Longrightarrow> completed g' = (completed g \<or> e = Finally)"
  by (cases e; cases "position g"; cases "race g"; cases "outputs g")
     (auto simp: continueLoop_def awaitRace_def split: if_splits)

lemma step_delivers:
  assumes "consistent g" and "step e g = Some g'"
  shows "yielded g' @ outputs g' =
         yielded g @ outputs g @ (if completed g then [] else emitted [e])"
proof (cases e)
  case Next
  with assms(2) show ?thesis
    by (cases "position g"; cases "outputs g")
       (auto simp: continueLoop_def awaitRace_def split: if_splits)
next
  case (Emit x)
  with assms show ?thesis
    by (auto simp: consistent_def split: if_splits)
next
  case (Wake s)
  with assms(2) show ?thesis
    by (cases "race g"; cases "outputs g")
       (auto simp: continueLoop_def awaitRace_def split: if_splits)
qed (use assms(2) in \<open>auto split: if_splits\<close>)

lemma run_delivers:
  "consistent g \<Longrightarrow> run evs g = Some g' \<Longrightarrow>
   consistent g' \<and>
   yielded g' @ outputs g' = yielded g @ outputs g @ (if completed g then [] else emitted evs)"
proof (induction evs arbitrary: g)
  case Nil
  then show ?case by simp
next
  case (Cons e es)
  from Cons.prems(2) obtain g1 where s: "step e g = Some g1" and r: "run es g1 = Some g'"
    by (auto split: option.splits)
  have c1: "consistent g1"
    using Cons.prems(1) s by (rule step_consistent)
  have d1: "yielded g1 @ outputs g1 =
      yielded g @ outputs g @ (if completed g then [] else emitted [e])"
    using Cons.prems(1) s by (rule step_delivers)
  have k1: "completed g1 = (completed g \<or> e = Finally)"
    using s by (rule step_completed)
  from Cons.IH [OF c1 r]
  have c': "consistent g'"
    and d': "yielded g' @ outputs g' =
      yielded g1 @ outputs g1 @ (if completed g1 then [] else emitted es)"
    by simp_all
  have "yielded g' @ outputs g' =
      yielded g @ outputs g @ (if completed g then [] else emitted (e # es))"
    unfolding d' append_assoc [symmetric] d1 unfolding k1 emitted_Cons [of e es]
    by simp
  with c' show ?case by simp
qed

text \<open>
  Once \<^verbatim>\<open>done\<close> is settled, a consumer that keeps asking gets every buffered output and
  then the end of the stream.
\<close>

lemma continueLoop_drains:
  assumes "doneDeferred g \<noteq> Waiting"
  shows "\<exists>g'. advances (length (outputs g)) s (continueLoop g) = Some g' \<and>
              finishedGenerator g' \<and> resultPromise g' = resultPromise g \<and>
              doneDeferred g' = doneDeferred g \<and> outputs g' = [] \<and>
              yielded g' = yielded g @ outputs g"
  using assms
proof (induction "outputs g" arbitrary: g)
  case Nil
  then show ?case
    by (simp add: continueLoop_def finishedGenerator_def)
next
  case (Cons x xs)
  let ?g1 = "continueLoop g"
  have o1: "xs = outputs ?g1" and p1: "position ?g1 = AtYield"
    and y1: "yielded ?g1 = yielded g @ [x]" and d1: "doneDeferred ?g1 = doneDeferred g"
    and r1: "resultPromise ?g1 = resultPromise g"
    using Cons.hyps(2) [symmetric] by (simp_all add: continueLoop_def)
  from Cons.hyps(1) [OF o1] Cons.prems d1
  obtain g' where g': "advances (length (outputs ?g1)) s (continueLoop ?g1) = Some g'"
      "finishedGenerator g'" "resultPromise g' = resultPromise ?g1"
      "doneDeferred g' = doneDeferred ?g1" "outputs g' = []"
      "yielded g' = yielded ?g1 @ outputs ?g1"
    by auto
  have a: "advance s ?g1 = Some (continueLoop ?g1)"
    using p1 by (simp add: advance_def)
  have "advances (length (outputs g)) s ?g1 = Some g'"
    using g'(1) a o1 Cons.hyps(2) [symmetric] by simp
  moreover have "yielded g' = yielded g @ outputs g"
    using g'(6) y1 o1 Cons.hyps(2) [symmetric] by simp
  ultimately show ?case
    using g'(2,3,4,5) d1 r1 by simp
qed

lemma generator_drains:
  assumes "consistent g" and "doneDeferred g \<noteq> Waiting"
  shows "\<exists>g'. advances (Suc (length (outputs g))) s g = Some g' \<and>
              finishedGenerator g' \<and> resultPromise g' \<noteq> Waiting \<and>
              outputs g' = [] \<and> yielded g' = yielded g @ outputs g"
proof -
  have res: "resultPromise g \<noteq> Waiting" and started: "position g \<noteq> NotStarted"
    using assms by (auto simp: consistent_def)
  show ?thesis
  proof (cases "position g")
    case NotStarted
    with started show ?thesis by simp
  next
    case AtYield
    then have a: "advance s g = Some (continueLoop g)"
      by (simp add: advance_def)
    from continueLoop_drains [OF assms(2), of s] res a show ?thesis
      by auto
  next
    case AtAwait
    show ?thesis
    proof (cases "race g")
      case Waiting
      with AtAwait assms show ?thesis by (simp add: consistent_def)
    next
      case (Failed ex)
      with AtAwait assms(1) have e: "outputs g = []"
        by (simp add: consistent_def)
      have "advance s g = Some (g\<lparr>position := Thrown ex\<rparr>)"
        using AtAwait Failed by (simp add: advance_def)
      with e res show ?thesis
        by (simp add: finishedGenerator_def)
    next
      case Resolved
      let ?g0 = "g\<lparr>outputsReceived := (if completed g then outputsReceived g + 1
                                          else outputsReceived g), sessionSeen := s\<rparr>"
      have a: "advance s g = Some (continueLoop ?g0)"
        using AtAwait Resolved by (simp add: advance_def)
      have "doneDeferred ?g0 \<noteq> Waiting"
        using assms(2) by simp
      from continueLoop_drains [OF this, of s] res a show ?thesis
        by auto
    qed
  next
    case Returned
    with assms(1) have e: "outputs g = []"
      by (simp add: consistent_def finishedGenerator_def)
    have "advance s g = Some g"
      using Returned by (simp add: advance_def)
    with e res Returned show ?thesis
      by (simp add: finishedGenerator_def)
  next
    case (Thrown ex)
    with assms(1) have e: "outputs g = []"
      by (simp add: consistent_def finishedGenerator_def)
    have "advance s g = Some g"
      using Thrown by (simp add: advance_def)
    with e res Thrown show ?thesis
      by (simp add: finishedGenerator_def)
  qed
qed

text \<open>
  C6. Take any schedule of emissions, promise callbacks and calls of \<^verbatim>\<open>next()\<close> that can
  happen, and the generator \<open>g\<close> it leads to. The outputs emitted until the request
  completed are, in the order of emission and each once, the outputs yielded so far
  followed by the outputs still buffered. The generator never waits while an output is
  buffered. It has ended (by returning, or by throwing when \<^verbatim>\<open>result.result\<close> was rejected
  while it waited) only if \<^verbatim>\<open>result.result\<close> and \<^verbatim>\<open>done\<close> are settled, and then everything
  emitted has been yielded. And once \<^verbatim>\<open>done\<close> is settled, a consumer that keeps asking is
  given all the buffered outputs before the generator ends.
\<close>

theorem outputs_yielded_once_in_order:
  assumes "run schedule suspendedStart = Some g"
  shows "yielded g @ outputs g = emitted schedule \<and>
         (position g = AtAwait \<and> race g = Waiting \<longrightarrow> yielded g = emitted schedule) \<and>
         (finishedGenerator g \<longrightarrow>
            resultPromise g \<noteq> Waiting \<and> doneDeferred g \<noteq> Waiting \<and>
            yielded g = emitted schedule) \<and>
         (doneDeferred g \<noteq> Waiting \<longrightarrow>
            (\<exists>g'. advances (Suc (length (outputs g))) s g = Some g' \<and>
                  finishedGenerator g' \<and> yielded g' = emitted schedule))"
proof -
  from run_delivers [OF consistent_start assms]
  have c: "consistent g" and d: "yielded g @ outputs g = emitted schedule"
    by (simp_all add: suspendedStart_def)
  have w: "position g = AtAwait \<and> race g = Waiting \<longrightarrow> yielded g = emitted schedule"
    using c d by (auto simp: consistent_def)
  have f: "finishedGenerator g \<longrightarrow>
            resultPromise g \<noteq> Waiting \<and> doneDeferred g \<noteq> Waiting \<and>
            yielded g = emitted schedule"
    using c d by (auto simp: consistent_def)
  have p: "doneDeferred g \<noteq> Waiting \<longrightarrow>
            (\<exists>g'. advances (Suc (length (outputs g))) s g = Some g' \<and>
                  finishedGenerator g' \<and> yielded g' = emitted schedule)"
    using generator_drains [OF c, of s] d by auto
  from d w f p show ?thesis by (intro conjI)
qed

lemma sampleSchedule_runs:
  "\<exists>g. run sampleSchedule suspendedStart = Some g \<and> position g = Returned"
  by (simp add: sampleSchedule_def suspendedStart_def awaitRace_def continueLoop_def)

text \<open>Three outputs, emitted at different moments, come out in order before the end.\<close>

theorem outputs_yielded_once_in_order_witness:
  "(\<exists>g. run sampleSchedule suspendedStart = Some g \<and> position g = Returned \<and>
        yielded g = [''a'', ''b'', ''c'']) \<and>
   emitted sampleSchedule = [''a'', ''b'', ''c'']"
proof -
  from sampleSchedule_runs obtain g
    where g: "run sampleSchedule suspendedStart = Some g" and p: "position g = Returned"
    by blast
  have e: "emitted sampleSchedule = [''a'', ''b'', ''c'']"
    by (simp add: sampleSchedule_def)
  have f: "finishedGenerator g"
    using p by (simp add: finishedGenerator_def)
  have "yielded g = emitted sampleSchedule"
    using outputs_yielded_once_in_order [OF g, of None] f by blast
  with g p e show ?thesis by auto
qed

end
